theory Spec2Isabelle
  imports Main "HOL-Library.Word"
begin

section \<open>The operating system as seen by socket\_packet\_utils\<close>

text \<open>
  The library is a thin layer over POSIX calls. Every call it makes is written to a log,
  and the operating system's reply to the k-th call of a run is \<open>answers w k\<close>: the value
  the call returns, the value it leaves in \<open>errno\<close>, and (for \<open>read\<close>) the bytes it
  delivers. Nothing is assumed about the replies, so a statement proved for every world
  holds whatever the peer and the kernel do. \<open>printf\<close> and \<open>perror\<close> only print and are
  left out.
\<close>

type_synonym byte = "8 word"

record answer =
  ret :: int
  err :: int
  dat :: "byte list"

datatype syscall =
    Signal_ignore_SIGPIPE
  | Socket
  | Setsockopt_reuseaddr int
  | Getenv string
  | Bind int int
  | Listen int int
  | Connect int int
  | Fcntl_getfl int
  | Fcntl_setfl int int
  | Accept int
  | Read int int
  | Write int "byte list"
  | Select_read int
  | Select_write int
  | Close int
  | Usleep int

record world =
  answers :: "nat \<Rightarrow> answer"
  calls :: "syscall list"
  errno :: int
  environ :: "string \<Rightarrow> string option"

text \<open>One call: log it, take the next reply, let it set \<open>errno\<close>.\<close>

definition sys :: "syscall \<Rightarrow> world \<Rightarrow> answer \<times> world" where
  "sys c w =
     (let a = answers w (length (calls w))
      in (a, w\<lparr>calls := calls w @ [c], errno := err a\<rparr>))"

text \<open>
  \<open>getenv\<close> is logged as well and answered by the environment; the reply at its position
  in the run is not used.
\<close>

definition sys_getenv :: "string \<Rightarrow> world \<Rightarrow> string option \<times> world" where
  "sys_getenv v w = (environ w v, w\<lparr>calls := calls w @ [Getenv v]\<rparr>)"

text \<open>Constants of the system headers (Linux values).\<close>

definition EAGAIN :: int where "EAGAIN = 11"
definition O_NONBLOCK :: int where "O_NONBLOCK = 2048"

text \<open>
  A run of the process ends early in two ways: \<open>exit(EXIT_FAILURE)\<close> after a failed
  set-up call, and a failed \<open>assert\<close>.
\<close>

datatype stop = Exit_failure | Assert_failed

type_synonym 'a result = "(stop + 'a) \<times> world"

section \<open>General helpers\<close>

definition STR_BUFF_SZ :: nat where "STR_BUFF_SZ = 256"

text \<open>
  \<open>atoi\<close> of the C library returns an \<open>int\<close>. It is \<open>(int) strtol(nptr, NULL, 10)\<close>:
  \<open>strtol\<close> skips white space, takes an optional sign and then decimal digits up to the
  first other character, and keeps a number beyond \<open>long\<close> (64 bits) at \<open>LONG_MAX\<close> or
  \<open>LONG_MIN\<close>; the conversion to \<open>int\<close> keeps the low 32 bits. (The C standard leaves
  \<open>atoi\<close> of a number beyond \<open>int\<close> undefined; this is what glibc computes.)
\<close>

definition isspace_c :: "char \<Rightarrow> bool" where
  "isspace_c c = (let k = (of_char c :: nat) in k = 32 \<or> (9 \<le> k \<and> k \<le> 13))"

definition isdigit_c :: "char \<Rightarrow> bool" where
  "isdigit_c c = (let k = (of_char c :: nat) in 48 \<le> k \<and> k \<le> 57)"

fun atoi_digits :: "int \<Rightarrow> string \<Rightarrow> int" where
  "atoi_digits acc [] = acc"
| "atoi_digits acc (c # cs) =
     (if isdigit_c c then atoi_digits (acc * 10 + (int (of_char c) - 48)) cs else acc)"

definition strtol :: "string \<Rightarrow> int" where
  "strtol s =
     (let v = (case dropWhile isspace_c s of
                 [] \<Rightarrow> 0
               | c # cs \<Rightarrow>
                   if c = CHR ''-'' then - atoi_digits 0 cs
                   else if c = CHR ''+'' then atoi_digits 0 cs
                   else atoi_digits 0 (c # cs))
      in max (- 9223372036854775808) (min 9223372036854775807 v))"

definition atoi :: "string \<Rightarrow> int" where
  "atoi s = sint (word_of_int (strtol s) :: 32 word)"

text \<open>
  \<open>getPortNumber\<close>: the value of the variable \<open><name>_PORT\<close> when it is defined, the default
  port converted to \<open>int\<close> otherwise; the \<open>assert\<close> stops the process on a port outside
  0..65535.
\<close>

definition getPortNumber :: "string \<Rightarrow> 32 word \<Rightarrow> world \<Rightarrow> int result" where
  "getPortNumber nm dflt_port w =
     (let env_var_name = nm @ ''_PORT'';
          (s, w1) = sys_getenv env_var_name w;
          p = (case s of Some v \<Rightarrow> atoi v | None \<Rightarrow> sint dflt_port)
      in if 0 \<le> p \<and> p \<le> 65535 then (Inr p, w1) else (Inl Assert_failed, w1))"

definition socketSetNonBlocking :: "int \<Rightarrow> world \<Rightarrow> unit result" where
  "socketSetNonBlocking fd w =
     (let (a, w1) = sys (Fcntl_getfl fd) w;
          flags = ret a
      in if flags = -1 then (Inl Exit_failure, w1)
         else let (b, w2) = sys (Fcntl_setfl fd (or flags O_NONBLOCK)) w1
              in if ret b = -1 then (Inl Exit_failure, w2) else (Inr (), w2))"

section \<open>The endpoint and its life cycle\<close>

record serv_socket_state_t =
  name :: string
  port :: int
  sock :: int
  conn :: int

text \<open>
  \<open>socket_create\<close>: the name is copied with \<open>strncpy\<close> into the field of \<open>STR_BUFF_SZ\<close>
  bytes, the \<open>unsigned\<close> default port is stored in an \<open>int\<close> field. A name of
  \<open>STR_BUFF_SZ\<close> characters or more leaves the field without its terminator, and the
  \<open>printf\<close> that follows (like the \<open>sprintf\<close> of \<open>getPortNumber\<close> later) reads past the
  field: the behaviour of the program is undefined there, and the model gives \<open>None\<close>. So
  the \<open>name\<close> of an endpoint is always a string shorter than \<open>STR_BUFF_SZ\<close>.
\<close>

definition socket_create :: "string \<Rightarrow> 32 word \<Rightarrow> serv_socket_state_t option" where
  "socket_create nm dflt_port =
     (if length nm < STR_BUFF_SZ
      then Some \<lparr>name = nm, port = sint dflt_port, sock = -1, conn = -1\<rparr>
      else None)"

definition socket_init :: "serv_socket_state_t \<Rightarrow> bool \<Rightarrow> world \<Rightarrow> serv_socket_state_t result" where
  "socket_init s server w =
     (if sock s \<noteq> -1 then (Inr s, w)
      else
        let (u, w1) = sys Signal_ignore_SIGPIPE w;
            (a, w2) = sys Socket w1;
            s1 = s\<lparr>sock := ret a\<rparr>
        in if sock s1 = -1 then (Inl Exit_failure, w2)
           else
             let (b, w3) = sys (Setsockopt_reuseaddr (sock s1)) w2
             in if ret b = -1 then (Inl Exit_failure, w3)
                else
                  case getPortNumber (name s1) (word_of_int (port s1)) w3 of
                    (Inl e, w4) \<Rightarrow> (Inl e, w4)
                  | (Inr p, w4) \<Rightarrow>
                      let s2 = s1\<lparr>port := p\<rparr>;
                          (r, w5) =
                            (if server then
                               let (c, w5) = sys (Bind (sock s2) (port s2)) w4
                               in if ret c = -1 then (Inl Exit_failure, w5)
                                  else let (d, w6) = sys (Listen (sock s2) 0) w5
                                       in if ret d = -1 then (Inl Exit_failure, w6)
                                          else (Inr (), w6)
                             else
                               let (c, w5) = sys (Connect (sock s2) (port s2)) w4
                               in if ret c = -1 then (Inl Exit_failure, w5)
                                  else (Inr (), w5))
                      in (case r of
                            Inl e \<Rightarrow> (Inl e, w5)
                          | Inr _ \<Rightarrow>
                              (case socketSetNonBlocking (sock s2) w5 of
                                 (Inl e, w6) \<Rightarrow> (Inl e, w6)
                               | (Inr _, w6) \<Rightarrow> (Inr s2, w6))))"

definition acceptConnection :: "serv_socket_state_t \<Rightarrow> bool \<Rightarrow> world \<Rightarrow> serv_socket_state_t result" where
  "acceptConnection s server w =
     (if conn s \<noteq> -1 then (Inr s, w)
      else
        case (if sock s = -1 then socket_init s server w else (Inr s, w)) of
          (Inl e, w1) \<Rightarrow> (Inl e, w1)
        | (Inr s1, w1) \<Rightarrow>
            if server then
              let (a, w2) = sys (Accept (sock s1)) w1;
                  s2 = s1\<lparr>conn := ret a\<rparr>
              in if conn s2 \<noteq> -1 then
                   (case socketSetNonBlocking (conn s2) w2 of
                      (Inl e, w3) \<Rightarrow> (Inl e, w3)
                    | (Inr _, w3) \<Rightarrow> (Inr s2, w3))
                 else (Inr s2, w2)
            else (Inr (s1\<lparr>conn := sock s1\<rparr>), w1))"

section \<open>Byte transfer\<close>

text \<open>
  \<open>first_byte\<close> is the local \<open>byte\<close> of \<open>socket_get8\<close> after a \<open>read\<close> of one byte: the byte
  the call delivered. \<open>store buf off d\<close> is the buffer after a \<open>read\<close> into \<open>&buf[off]\<close>
  delivered \<open>d\<close>.
\<close>

definition first_byte :: "answer \<Rightarrow> byte" where
  "first_byte a = (case dat a of [] \<Rightarrow> 0 | b # _ \<Rightarrow> b)"

fun store :: "byte list \<Rightarrow> nat \<Rightarrow> byte list \<Rightarrow> byte list" where
  "store buf off [] = buf"
| "store buf off (b # bs) = store (buf[off := b]) (Suc off) bs"

definition delivered :: "answer \<Rightarrow> byte list" where
  "delivered a = take (nat (ret a)) (dat a)"

text \<open>Non-blocking read of 8 bits; \<open>return -1\<close> in a \<open>uint32_t\<close> function is \<open>0xFFFFFFFF\<close>.\<close>

definition socket_get8 ::
  "serv_socket_state_t \<Rightarrow> bool \<Rightarrow> world \<Rightarrow> (32 word \<times> serv_socket_state_t) result" where
  "socket_get8 s0 server w0 =
     (case acceptConnection s0 server w0 of
        (Inl e, w) \<Rightarrow> (Inl e, w)
      | (Inr s, w) \<Rightarrow>
          if conn s = -1 then (Inr (- 1, s), w)
          else
            let (a, w1) = sys (Read (conn s) 1) w;
                n = ret a
            in if n = 1 then (Inr (ucast (first_byte a), s), w1)
               else if \<not> (n = -1 \<and> errno w1 = EAGAIN) then
                 let (u, w2) = sys (Close (conn s)) w1
                 in (Inr (- 1, s\<lparr>conn := -1\<rparr>), w2)
               else (Inr (- 1, s), w1))"

text \<open>Non-blocking write of 8 bits.\<close>

definition socket_put8 ::
  "serv_socket_state_t \<Rightarrow> byte \<Rightarrow> bool \<Rightarrow> world \<Rightarrow> (byte \<times> serv_socket_state_t) result" where
  "socket_put8 s0 b server w0 =
     (case acceptConnection s0 server w0 of
        (Inl e, w) \<Rightarrow> (Inl e, w)
      | (Inr s, w) \<Rightarrow>
          if conn s = -1 then (Inr (0, s), w)
          else
            let (a, w1) = sys (Write (conn s) [b]) w;
                n = ret a
            in if n = 1 then (Inr (1, s), w1)
               else if \<not> (n = -1 \<and> errno w1 = EAGAIN) then
                 let (u, w2) = sys (Close (conn s)) w1
                 in (Inr (0, s\<lparr>conn := -1\<rparr>), w2)
               else (Inr (0, s), w1))"

text \<open>
  Blocking write of 8 bits: the \<open>for\<close> loop from \<open>i\<close> up to 1000, one \<open>write\<close> per round and
  \<open>usleep(1000000)\<close> after a round that found the buffer full.
\<close>

function put8_blocking_loop :: "int \<Rightarrow> int \<Rightarrow> byte \<Rightarrow> world \<Rightarrow> byte \<times> world" where
  "put8_blocking_loop i c b w =
     (if i \<le> 1000 then
        (case sys (Write c [b]) w of
           (a, w1) \<Rightarrow>
             if ret a = 1 then (1, w1)
             else if \<not> (ret a = -1 \<and> errno w1 = EAGAIN) then (0, w1)
             else (case sys (Usleep 1000000) w1 of
                     (u, w2) \<Rightarrow> put8_blocking_loop (i + 1) c b w2))
      else (0, w))"
  by pat_completeness auto
termination
  by (relation "measure (\<lambda>(i, c, b, w). nat (1001 - i))") auto

declare put8_blocking_loop.simps [simp del]

definition socket_put8_blocking ::
  "serv_socket_state_t \<Rightarrow> byte \<Rightarrow> bool \<Rightarrow> world \<Rightarrow> (byte \<times> serv_socket_state_t) result" where
  "socket_put8_blocking s0 b server w0 =
     (case acceptConnection s0 server w0 of
        (Inl e, w) \<Rightarrow> (Inl e, w)
      | (Inr s, w) \<Rightarrow>
          if conn s = -1 then (Inr (0, s), w)
          else (case put8_blocking_loop 1 (conn s) b w of
                  (r, w1) \<Rightarrow> (Inr (r, s), w1)))"

text \<open>
  \<open>socket_getN\<close>. The result buffer holds \<open>nbytes + 1\<close> bytes; the last one is the status.
  The \<open>while\<close> loop of the blocking phase has no bound: it is a partial function, and
  \<open>None\<close> is a call that never returns. It yields the final \<open>count\<close> with the buffer.
\<close>

partial_function (option) getN_loop ::
  "int \<Rightarrow> int \<Rightarrow> int \<Rightarrow> byte list \<Rightarrow> world \<Rightarrow> (int \<times> byte list) result option" where
  "getN_loop c nbytes count bytes w =
     (if count < nbytes then
        (case sys (Select_read c) w of
           (a, w1) \<Rightarrow>
             if \<not> 0 \<le> ret a then Some (Inl Assert_failed, w1)
             else (case sys (Read c (nbytes - count)) w1 of
                     (r, w2) \<Rightarrow>
                       if \<not> 0 \<le> ret r then Some (Inl Assert_failed, w2)
                       else getN_loop c nbytes (count + ret r)
                              (store bytes (nat count) (delivered r)) w2))
      else Some (Inr (count, bytes), w))"

definition socket_getN ::
  "byte list \<Rightarrow> serv_socket_state_t \<Rightarrow> int \<Rightarrow> bool \<Rightarrow> world
     \<Rightarrow> (byte list \<times> serv_socket_state_t) result option" where
  "socket_getN bytes0 s0 nbytes server w0 =
     (case acceptConnection s0 server w0 of
        (Inl e, w) \<Rightarrow> Some (Inl e, w)
      | (Inr s, w) \<Rightarrow>
          if conn s = -1 then Some (Inr (bytes0[nat nbytes := 0xff], s), w)
          else
            (case sys (Read (conn s) nbytes) w of
               (a, w1) \<Rightarrow>
                 let count = ret a;
                     bytes = store bytes0 0 (delivered a)
                 in if count = nbytes then Some (Inr (bytes[nat nbytes := 0], s), w1)
                    else if 0 < count then
                      (case getN_loop (conn s) nbytes count bytes w1 of
                         None \<Rightarrow> None
                       | Some (Inl e, w2) \<Rightarrow> Some (Inl e, w2)
                       | Some (Inr (cnt, bytes'), w2) \<Rightarrow>
                           Some (Inr (bytes'[nat nbytes := 0], s), w2))
                    else if \<not> (count = -1 \<and> errno w1 = EAGAIN) then
                      (case sys (Close (conn s)) w1 of
                         (u, w2) \<Rightarrow>
                           Some (Inr (bytes[nat nbytes := 0xff], s\<lparr>conn := -1\<rparr>), w2))
                    else Some (Inr (bytes[nat nbytes := 0xff], s), w1)))"

text \<open>
  \<open>socket_putN\<close>: \<open>data\<close> is the caller's array seen as bytes. Its blocking phase is a partial
  function as well.
\<close>

partial_function (option) putN_loop ::
  "int \<Rightarrow> int \<Rightarrow> int \<Rightarrow> byte list \<Rightarrow> world \<Rightarrow> int result option" where
  "putN_loop c nbytes count bytes w =
     (if count < nbytes then
        (case sys (Select_write c) w of
           (a, w1) \<Rightarrow>
             if \<not> 0 \<le> ret a then Some (Inl Assert_failed, w1)
             else (case sys (Write c (take (nat (nbytes - count)) (drop (nat count) bytes))) w1 of
                     (r, w2) \<Rightarrow>
                       if \<not> 0 \<le> ret r then Some (Inl Assert_failed, w2)
                       else putN_loop c nbytes (count + ret r) bytes w2))
      else Some (Inr count, w))"

definition socket_putN ::
  "serv_socket_state_t \<Rightarrow> int \<Rightarrow> byte list \<Rightarrow> bool \<Rightarrow> world
     \<Rightarrow> (byte \<times> serv_socket_state_t) result option" where
  "socket_putN s0 nbytes bytes server w0 =
     (case acceptConnection s0 server w0 of
        (Inl e, w) \<Rightarrow> Some (Inl e, w)
      | (Inr s, w) \<Rightarrow>
          if conn s = -1 then Some (Inr (0, s), w)
          else
            (case sys (Write (conn s) (take (nat nbytes) bytes)) w of
               (a, w1) \<Rightarrow>
                 let count = ret a
                 in if count = nbytes then Some (Inr (1, s), w1)
                    else if 0 < count then
                      (case putN_loop (conn s) nbytes count bytes w1 of
                         None \<Rightarrow> None
                       | Some (Inl e, w2) \<Rightarrow> Some (Inl e, w2)
                       | Some (Inr cnt, w2) \<Rightarrow> Some (Inr (1, s), w2))
                    else if \<not> (count = -1 \<and> errno w1 = EAGAIN) then
                      (case sys (Close (conn s)) w1 of
                         (u, w2) \<Rightarrow> Some (Inr (0, s\<lparr>conn := -1\<rparr>), w2))
                    else Some (Inr (0, s), w1)))"

section \<open>Vocabulary of the statements\<close>

text \<open>
  \<open>reply_at w j\<close> is the reply to the j-th call made from \<open>w\<close> on. A reply is transient
  when the call returned \<open>-1\<close> with \<open>errno = EAGAIN\<close>.
\<close>

definition reply_at :: "world \<Rightarrow> nat \<Rightarrow> answer" where
  "reply_at w j = answers w (length (calls w) + j)"

definition transient :: "answer \<Rightarrow> bool" where
  "transient a = (ret a = -1 \<and> err a = EAGAIN)"

text \<open>Two endpoints that differ at most in the connection descriptor.\<close>

definition same_endpoint :: "serv_socket_state_t \<Rightarrow> serv_socket_state_t \<Rightarrow> bool" where
  "same_endpoint s s' = (name s' = name s \<and> port s' = port s \<and> sock s' = sock s)"


text \<open>The calls of \<open>k\<close> rounds of \<open>socket_put8_blocking\<close> that found the buffer full.\<close>

definition rounds :: "int \<Rightarrow> byte \<Rightarrow> nat \<Rightarrow> syscall list" where
  "rounds c b k = concat (replicate k [Write c [b], Usleep 1000000])"

text \<open>
  \<open>completes f k m r\<close>: with \<open>r\<close> bytes still missing before call number \<open>k\<close>, at most \<open>m\<close>
  rounds of the blocking phase (a \<open>select\<close>, then a \<open>read\<close> or \<open>write\<close>), each call
  returning at least 0, transfer the missing bytes.
\<close>

fun completes :: "(nat \<Rightarrow> answer) \<Rightarrow> nat \<Rightarrow> nat \<Rightarrow> int \<Rightarrow> bool" where
  "completes f k 0 r = (r \<le> 0)"
| "completes f k (Suc m) r =
     (r \<le> 0 \<or> (0 \<le> ret (f k) \<and> 0 \<le> ret (f (Suc k)) \<and>
                completes f (k + 2) m (r - ret (f (Suc k)))))"

section \<open>Example runs\<close>

definition reply :: "int \<Rightarrow> answer" where
  "reply r = \<lparr>ret = r, err = 0, dat = []\<rparr>"

definition failure :: "int \<Rightarrow> answer" where
  "failure e = \<lparr>ret = -1, err = e, dat = []\<rparr>"

definition incoming :: "byte list \<Rightarrow> answer" where
  "incoming bs = \<lparr>ret = int (length bs), err = 0, dat = bs\<rparr>"

text \<open>A world that gives the listed replies and then reports \<open>EAGAIN\<close> for ever.\<close>

definition world_of :: "answer list \<Rightarrow> (string \<Rightarrow> string option) \<Rightarrow> world" where
  "world_of xs env =
     \<lparr>answers = (\<lambda>k. if k < length xs then xs ! k else failure EAGAIN),
      calls = [], errno = 0, environ = env\<rparr>"

definition ex_env :: "string \<Rightarrow> string option" where
  "ex_env v =
     (if v = ''A_PORT'' then Some ''8000''
      else if v = ''C_PORT'' then Some ''4294975296''
      else if v = ''D_PORT'' then Some ''70000''
      else None)"

definition ex_created :: serv_socket_state_t where
  "ex_created = \<lparr>name = ''A'', port = 10000, sock = -1, conn = -1\<rparr>"

text \<open>A client whose connection is its socket, descriptor 3.\<close>

definition ex_client :: serv_socket_state_t where
  "ex_client = \<lparr>name = ''A'', port = 8000, sock = 3, conn = 3\<rparr>"

definition ex_attached :: serv_socket_state_t where
  "ex_attached = \<lparr>name = ''A'', port = 8000, sock = 3, conn = 5\<rparr>"

definition ex_reset_client :: serv_socket_state_t where
  "ex_reset_client = \<lparr>name = ''A'', port = 8000, sock = 3, conn = -1\<rparr>"

text \<open>
  The replies of a successful initialisation: \<open>signal\<close>, \<open>socket\<close> (descriptor 3),
  \<open>setsockopt\<close>, the slot of \<open>getenv\<close> (answered by the environment), \<open>bind\<close>, \<open>listen\<close>,
  and the two \<open>fcntl\<close> calls.
\<close>

definition ex_init_world :: world where
  "ex_init_world =
     world_of [reply 0, reply 3, reply 0, reply 0, reply 0, reply 0, reply 2, reply 0] ex_env"

text \<open>
  A peer that sends two bytes and closes: the first read returns them, and from then on
  every \<open>select\<close> reports the descriptor readable and every \<open>read\<close> returns 0.
\<close>

definition ex_closed_world :: world where
  "ex_closed_world =
     \<lparr>answers = (\<lambda>k. if k = 0 then incoming [1, 2] else if odd k then reply 1 else reply 0),
      calls = [], errno = 0, environ = ex_env\<rparr>"

lemmas ex_defs = ex_attached_def ex_reset_client_def ex_created_def ex_client_def
  ex_env_def world_of_def reply_def failure_def incoming_def

section \<open>Basic facts\<close>

lemma sys_simp:
  "sys c w = (answers w (length (calls w)),
              w\<lparr>calls := calls w @ [c], errno := err (answers w (length (calls w)))\<rparr>)"
  by (simp add: sys_def Let_def)

lemma sentinel_value: "(- 1 :: 32 word) = 0xFFFFFFFF"
  by simp

lemma ucast_byte_le: "(ucast (b :: byte) :: 32 word) \<le> 0xFF"
proof -
  have "uint (ucast b :: 32 word) = uint b"
    by (rule uint_up_ucast) (simp add: is_up)
  moreover have "uint b < 256" using uint_lt2p [of b] by simp
  ultimately show ?thesis by (simp add: word_le_def)
qed

lemma ucast_byte_not_sentinel: "(ucast (b :: byte) :: 32 word) \<noteq> 0xFFFFFFFF"
proof
  assume "(ucast b :: 32 word) = 0xFFFFFFFF"
  with ucast_byte_le [of b] have "(0xFFFFFFFF :: 32 word) \<le> 0xFF" by simp
  then show False by simp
qed

lemma length_store: "length (store buf off d) = length buf"
  by (induction d arbitrary: buf off) auto

subsection \<open>An initialised endpoint keeps its name, port and socket\<close>

lemma socket_init_set: "sock s \<noteq> -1 \<Longrightarrow> socket_init s server w = (Inr s, w)"
  by (simp add: socket_init_def)

lemma socket_init_returns:
  assumes "socket_init s server w = (Inr s', w')" and "sock s = -1"
  shows "sock s' \<noteq> -1 \<and> conn s' = conn s \<and> name s' = name s"
  using assms
  by (auto simp: socket_init_def sys_simp Let_def getPortNumber_def sys_getenv_def
        split: if_splits prod.splits sum.splits option.splits)

lemma acceptConnection_keeps:
  assumes "sock s \<noteq> -1" and "acceptConnection s server w = (Inr s', w')"
  shows "same_endpoint s s'"
  using assms
  by (auto simp: acceptConnection_def sys_simp Let_def same_endpoint_def
        split: if_splits prod.splits sum.splits)

lemma acceptConnection_attached:
  "conn s \<noteq> -1 \<Longrightarrow> acceptConnection s server w = (Inr s, w)"
  by (simp add: acceptConnection_def)

lemma socket_get8_keeps:
  assumes "sock s \<noteq> -1" and "socket_get8 s server w = (Inr (v, s'), w')"
  shows "same_endpoint s s'"
proof -
  obtain s1 w1 where a: "acceptConnection s server w = (Inr s1, w1)"
    using assms(2) by (auto simp: socket_get8_def split: prod.splits sum.splits)
  have "same_endpoint s s1" using acceptConnection_keeps [OF assms(1) a] .
  moreover have "same_endpoint s1 s'"
    using assms(2) a
    by (auto simp: socket_get8_def sys_simp Let_def same_endpoint_def split: if_splits)
  ultimately show ?thesis by (simp add: same_endpoint_def)
qed

lemma socket_put8_keeps:
  assumes "sock s \<noteq> -1" and "socket_put8 s b server w = (Inr (v, s'), w')"
  shows "same_endpoint s s'"
proof -
  obtain s1 w1 where a: "acceptConnection s server w = (Inr s1, w1)"
    using assms(2) by (auto simp: socket_put8_def split: prod.splits sum.splits)
  have "same_endpoint s s1" using acceptConnection_keeps [OF assms(1) a] .
  moreover have "same_endpoint s1 s'"
    using assms(2) a
    by (auto simp: socket_put8_def sys_simp Let_def same_endpoint_def split: if_splits)
  ultimately show ?thesis by (simp add: same_endpoint_def)
qed

lemma socket_put8_blocking_keeps:
  assumes "sock s \<noteq> -1" and "socket_put8_blocking s b server w = (Inr (v, s'), w')"
  shows "same_endpoint s s'"
proof -
  obtain s1 w1 where a: "acceptConnection s server w = (Inr s1, w1)"
    using assms(2) by (auto simp: socket_put8_blocking_def split: prod.splits sum.splits)
  have "same_endpoint s s1" using acceptConnection_keeps [OF assms(1) a] .
  moreover have "same_endpoint s1 s'"
    using assms(2) a
    by (auto simp: socket_put8_blocking_def same_endpoint_def split: if_splits prod.splits)
  ultimately show ?thesis by (simp add: same_endpoint_def)
qed

lemma socket_getN_keeps:
  assumes "sock s \<noteq> -1" and "socket_getN buf s n server w = Some (Inr (buf', s'), w')"
  shows "same_endpoint s s'"
proof -
  obtain s1 w1 where a: "acceptConnection s server w = (Inr s1, w1)"
    using assms(2) by (auto simp: socket_getN_def split: prod.splits sum.splits)
  have "same_endpoint s s1" using acceptConnection_keeps [OF assms(1) a] .
  moreover have "same_endpoint s1 s'"
    using assms(2) a
    by (auto simp: socket_getN_def sys_simp Let_def same_endpoint_def
          split: if_splits option.splits prod.splits sum.splits)
  ultimately show ?thesis by (simp add: same_endpoint_def)
qed

lemma socket_putN_keeps:
  assumes "sock s \<noteq> -1" and "socket_putN s n bytes server w = Some (Inr (v, s'), w')"
  shows "same_endpoint s s'"
proof -
  obtain s1 w1 where a: "acceptConnection s server w = (Inr s1, w1)"
    using assms(2) by (auto simp: socket_putN_def split: prod.splits sum.splits)
  have "same_endpoint s s1" using acceptConnection_keeps [OF assms(1) a] .
  moreover have "same_endpoint s1 s'"
    using assms(2) a
    by (auto simp: socket_putN_def sys_simp Let_def same_endpoint_def
          split: if_splits option.splits prod.splits sum.splits)
  ultimately show ?thesis by (simp add: same_endpoint_def)
qed

lemma atoi_examples:
  "atoi ''8000'' = 8000 \<and> atoi ''4294975296'' = 8000 \<and> atoi ''70000'' = 70000"
  by (simp add: atoi_def strtol_def isspace_c_def isdigit_c_def Let_def)

lemma ex_created_run: "socket_create ''A'' 10000 = Some ex_created"
  by (simp add: socket_create_def ex_created_def STR_BUFF_SZ_def)

lemma ex_init_run:
  "socket_init ex_created True ex_init_world =
     (Inr ex_reset_client,
      ex_init_world\<lparr>calls := [Signal_ignore_SIGPIPE, Socket, Setsockopt_reuseaddr 3,
        Getenv ''A_PORT'', Bind 3 8000, Listen 3 0, Fcntl_getfl 3, Fcntl_setfl 3 2050],
        errno := 0\<rparr>)"
  using atoi_examples
  by (simp add: socket_init_def ex_init_world_def sys_simp
      getPortNumber_def sys_getenv_def socketSetNonBlocking_def ex_defs
      O_NONBLOCK_def Let_def)

section \<open>Initialisation\<close>

text \<open>
  C8. \<open>socket_init\<close> is idempotent: on an endpoint whose listen descriptor is set it
  returns at once, with the endpoint and the world as they were (no call is logged: no
  port resolution, no socket, no bind, listen or connect). An initialisation that returns
  leaves the descriptor set, so that any later one is such a no-op, and no operation
  changes a descriptor that is set: it goes from unset to set once.
\<close>

theorem socket_init_idempotent:
  "(sock s \<noteq> -1 \<longrightarrow> socket_init s server w = (Inr s, w)) \<and>
   (socket_init s0 server0 w0 = (Inr s1, w1) \<longrightarrow>
      sock s1 \<noteq> -1 \<and> socket_init s1 server1 w2 = (Inr s1, w2)) \<and>
   (sock s \<noteq> -1 \<longrightarrow>
      (\<forall>v s' w'. socket_get8 s server w = (Inr (v, s'), w') \<longrightarrow> sock s' = sock s) \<and>
      (\<forall>b v s' w'. socket_put8 s b server w = (Inr (v, s'), w') \<longrightarrow> sock s' = sock s) \<and>
      (\<forall>b v s' w'. socket_put8_blocking s b server w = (Inr (v, s'), w')
          \<longrightarrow> sock s' = sock s) \<and>
      (\<forall>buf n buf' s' w'. socket_getN buf s n server w = Some (Inr (buf', s'), w')
          \<longrightarrow> sock s' = sock s) \<and>
      (\<forall>n bytes v s' w'. socket_putN s n bytes server w = Some (Inr (v, s'), w')
          \<longrightarrow> sock s' = sock s))"
proof (intro conjI impI allI)
  assume "sock s \<noteq> -1"
  then show "socket_init s server w = (Inr s, w)" by (rule socket_init_set)
next
  assume r: "socket_init s0 server0 w0 = (Inr s1, w1)"
  show "sock s1 \<noteq> -1"
  proof (cases "sock s0 = -1")
    case True
    with r show ?thesis using socket_init_returns by blast
  next
    case False
    with r show ?thesis by (simp add: socket_init_def)
  qed
  then show "socket_init s1 server1 w2 = (Inr s1, w2)" by (rule socket_init_set)
next
  fix v s' w' assume "sock s \<noteq> -1" "socket_get8 s server w = (Inr (v, s'), w')"
  then show "sock s' = sock s" using socket_get8_keeps by (simp add: same_endpoint_def)
next
  fix b v s' w' assume "sock s \<noteq> -1" "socket_put8 s b server w = (Inr (v, s'), w')"
  then show "sock s' = sock s" using socket_put8_keeps by (simp add: same_endpoint_def)
next
  fix b v s' w' assume "sock s \<noteq> -1" "socket_put8_blocking s b server w = (Inr (v, s'), w')"
  then show "sock s' = sock s" using socket_put8_blocking_keeps by (simp add: same_endpoint_def)
next
  fix buf n buf' s' w'
  assume "sock s \<noteq> -1" "socket_getN buf s n server w = Some (Inr (buf', s'), w')"
  then show "sock s' = sock s" using socket_getN_keeps by (simp add: same_endpoint_def)
next
  fix n bytes v s' w'
  assume "sock s \<noteq> -1" "socket_putN s n bytes server w = Some (Inr (v, s'), w')"
  then show "sock s' = sock s" using socket_putN_keeps by (simp add: same_endpoint_def)
qed

theorem socket_init_idempotent_witness:
  "sock ex_attached \<noteq> -1 \<and>
   socket_init ex_attached True ex_init_world = (Inr ex_attached, ex_init_world) \<and>
   socket_create ''A'' 10000 = Some ex_created \<and>
   fst (socket_init ex_created True ex_init_world) = Inr ex_reset_client \<and>
   sock ex_reset_client \<noteq> -1 \<and>
   socket_init ex_reset_client False ex_init_world = (Inr ex_reset_client, ex_init_world) \<and>
   fst (socket_get8 ex_attached True (world_of [incoming [0x41]] ex_env))
     = Inr (0x41, ex_attached)"
  using socket_init_idempotent
    [of ex_attached True ex_init_world ex_created True ex_init_world
        ex_reset_client
        "ex_init_world\<lparr>calls := [Signal_ignore_SIGPIPE, Socket, Setsockopt_reuseaddr 3,
          Getenv ''A_PORT'', Bind 3 8000, Listen 3 0, Fcntl_getfl 3, Fcntl_setfl 3 2050],
          errno := 0\<rparr>" False ex_init_world]
    ex_init_run ex_created_run
  by (simp add: socket_get8_def acceptConnection_def sys_simp ex_defs first_byte_def Let_def)






section \<open>Single bytes\<close>

text \<open>
  C5. \<open>socket_get8\<close> returns the byte that was read, a value of at most 255, or the
  sentinel \<open>0xFFFFFFFF\<close>, never both. It returns the sentinel exactly when no connection
  is attached after the attempt to attach one, or the read of one byte does not return 1:
  on a transient reply the connection stays as it is, on any other reply the descriptor
  is closed and reset. (When the attempt to attach stops the process, so does
  \<open>socket_get8\<close>.)
\<close>

theorem socket_get8_byte_or_sentinel:
  "(acceptConnection s0 server w0 = (Inl e, w) \<longrightarrow> socket_get8 s0 server w0 = (Inl e, w)) \<and>
   (acceptConnection s0 server w0 = (Inr s, w) \<longrightarrow>
      (\<exists>v s' w'. socket_get8 s0 server w0 = (Inr (v, s'), w') \<and>
         (v = 0xFFFFFFFF \<or> v \<le> 0xFF) \<and>
         (v = 0xFFFFFFFF) = (conn s = -1 \<or> ret (reply_at w 0) \<noteq> 1) \<and>
         (v \<le> 0xFF) = (conn s \<noteq> -1 \<and> ret (reply_at w 0) = 1) \<and>
         (conn s = -1 \<longrightarrow> s' = s \<and> w' = w) \<and>
         (conn s \<noteq> -1 \<and> ret (reply_at w 0) = 1 \<longrightarrow>
            v = ucast (first_byte (reply_at w 0)) \<and> s' = s \<and>
            calls w' = calls w @ [Read (conn s) 1]) \<and>
         (conn s \<noteq> -1 \<and> transient (reply_at w 0) \<longrightarrow>
            s' = s \<and> calls w' = calls w @ [Read (conn s) 1]) \<and>
         (conn s \<noteq> -1 \<and> ret (reply_at w 0) \<noteq> 1 \<and> \<not> transient (reply_at w 0) \<longrightarrow>
            s' = s\<lparr>conn := -1\<rparr> \<and>
            calls w' = calls w @ [Read (conn s) 1, Close (conn s)])))"
proof (intro conjI impI)
  assume "acceptConnection s0 server w0 = (Inl e, w)"
  then show "socket_get8 s0 server w0 = (Inl e, w)" by (simp add: socket_get8_def)
next
  assume a: "acceptConnection s0 server w0 = (Inr s, w)"
  have le: "(ucast (first_byte (reply_at w 0)) :: 32 word) \<le> 0xFF" by (rule ucast_byte_le)
  have ne: "(ucast (first_byte (reply_at w 0)) :: 32 word) \<noteq> 0xFFFFFFFF"
    by (rule ucast_byte_not_sentinel)
  show "\<exists>v s' w'. socket_get8 s0 server w0 = (Inr (v, s'), w') \<and>
         (v = 0xFFFFFFFF \<or> v \<le> 0xFF) \<and>
         (v = 0xFFFFFFFF) = (conn s = -1 \<or> ret (reply_at w 0) \<noteq> 1) \<and>
         (v \<le> 0xFF) = (conn s \<noteq> -1 \<and> ret (reply_at w 0) = 1) \<and>
         (conn s = -1 \<longrightarrow> s' = s \<and> w' = w) \<and>
         (conn s \<noteq> -1 \<and> ret (reply_at w 0) = 1 \<longrightarrow>
            v = ucast (first_byte (reply_at w 0)) \<and> s' = s \<and>
            calls w' = calls w @ [Read (conn s) 1]) \<and>
         (conn s \<noteq> -1 \<and> transient (reply_at w 0) \<longrightarrow>
            s' = s \<and> calls w' = calls w @ [Read (conn s) 1]) \<and>
         (conn s \<noteq> -1 \<and> ret (reply_at w 0) \<noteq> 1 \<and> \<not> transient (reply_at w 0) \<longrightarrow>
            s' = s\<lparr>conn := -1\<rparr> \<and>
            calls w' = calls w @ [Read (conn s) 1, Close (conn s)])"
    using a le ne
    by (simp add: socket_get8_def sys_simp Let_def reply_at_def transient_def sentinel_value)
qed

theorem socket_get8_byte_or_sentinel_witness:
  "acceptConnection ex_attached True (world_of [incoming [0x41]] ex_env)
     = (Inr ex_attached, world_of [incoming [0x41]] ex_env) \<and>
   fst (socket_get8 ex_attached True (world_of [incoming [0x41]] ex_env))
     = Inr (0x41, ex_attached) \<and>
   fst (socket_get8 ex_attached True (world_of [failure EAGAIN] ex_env))
     = Inr (0xFFFFFFFF, ex_attached) \<and>
   fst (socket_get8 ex_attached True (world_of [reply 0] ex_env))
     = Inr (0xFFFFFFFF, ex_attached\<lparr>conn := -1\<rparr>)"
  using socket_get8_byte_or_sentinel
    [of ex_attached True "world_of [incoming [0x41]] ex_env" Exit_failure
        "world_of [incoming [0x41]] ex_env" ex_attached]
  by (simp add: socket_get8_def acceptConnection_def sys_simp ex_defs first_byte_def
      EAGAIN_def Let_def sentinel_value)

text \<open>
  C6. \<open>socket_put8\<close> returns 1 exactly when a connection is attached and the write of the
  byte returns 1, and 0 otherwise: with no connection after the attempt to attach one it
  makes no call; on a transient reply the connection stays as it is; on any other reply
  the descriptor is closed and reset.
\<close>

theorem socket_put8_result:
  "(acceptConnection s0 server w0 = (Inl e, w) \<longrightarrow>
      socket_put8 s0 b server w0 = (Inl e, w)) \<and>
   (acceptConnection s0 server w0 = (Inr s, w) \<longrightarrow>
      (\<exists>v s' w'. socket_put8 s0 b server w0 = (Inr (v, s'), w') \<and>
         (v = 1 \<or> v = 0) \<and>
         (v = 1) = (conn s \<noteq> -1 \<and> ret (reply_at w 0) = 1) \<and>
         (conn s = -1 \<longrightarrow> s' = s \<and> w' = w) \<and>
         (conn s \<noteq> -1 \<and> ret (reply_at w 0) = 1 \<longrightarrow>
            s' = s \<and> calls w' = calls w @ [Write (conn s) [b]]) \<and>
         (conn s \<noteq> -1 \<and> transient (reply_at w 0) \<longrightarrow>
            s' = s \<and> calls w' = calls w @ [Write (conn s) [b]]) \<and>
         (conn s \<noteq> -1 \<and> ret (reply_at w 0) \<noteq> 1 \<and> \<not> transient (reply_at w 0) \<longrightarrow>
            s' = s\<lparr>conn := -1\<rparr> \<and>
            calls w' = calls w @ [Write (conn s) [b], Close (conn s)])))"
proof (intro conjI impI)
  assume "acceptConnection s0 server w0 = (Inl e, w)"
  then show "socket_put8 s0 b server w0 = (Inl e, w)" by (simp add: socket_put8_def)
next
  assume a: "acceptConnection s0 server w0 = (Inr s, w)"
  then show "\<exists>v s' w'. socket_put8 s0 b server w0 = (Inr (v, s'), w') \<and>
         (v = 1 \<or> v = 0) \<and>
         (v = 1) = (conn s \<noteq> -1 \<and> ret (reply_at w 0) = 1) \<and>
         (conn s = -1 \<longrightarrow> s' = s \<and> w' = w) \<and>
         (conn s \<noteq> -1 \<and> ret (reply_at w 0) = 1 \<longrightarrow>
            s' = s \<and> calls w' = calls w @ [Write (conn s) [b]]) \<and>
         (conn s \<noteq> -1 \<and> transient (reply_at w 0) \<longrightarrow>
            s' = s \<and> calls w' = calls w @ [Write (conn s) [b]]) \<and>
         (conn s \<noteq> -1 \<and> ret (reply_at w 0) \<noteq> 1 \<and> \<not> transient (reply_at w 0) \<longrightarrow>
            s' = s\<lparr>conn := -1\<rparr> \<and>
            calls w' = calls w @ [Write (conn s) [b], Close (conn s)])"
    by (simp add: socket_put8_def sys_simp Let_def reply_at_def transient_def)
qed

theorem socket_put8_result_witness:
  "acceptConnection ex_attached True (world_of [reply 1] ex_env)
     = (Inr ex_attached, world_of [reply 1] ex_env) \<and>
   fst (socket_put8 ex_attached 0x41 True (world_of [reply 1] ex_env))
     = Inr (1, ex_attached) \<and>
   fst (socket_put8 ex_attached 0x41 True (world_of [failure EAGAIN] ex_env))
     = Inr (0, ex_attached) \<and>
   fst (socket_put8 ex_attached 0x41 True (world_of [failure 32, reply 0] ex_env))
     = Inr (0, ex_attached\<lparr>conn := -1\<rparr>) \<and>
   socket_put8 ex_reset_client 0x41 True (world_of [failure EAGAIN] ex_env)
     = (Inr (0, ex_reset_client),
        (world_of [failure EAGAIN] ex_env)\<lparr>calls := [Accept 3], errno := EAGAIN\<rparr>)"
  using socket_put8_result
    [of ex_attached True "world_of [reply 1] ex_env" Exit_failure
        "world_of [reply 1] ex_env" "0x41" ex_attached]
  by (simp add: socket_put8_def acceptConnection_def sys_simp ex_defs EAGAIN_def Let_def)

section \<open>The blocking write of one byte\<close>

text \<open>
  C2. On an attached connection whose peer has gone, \<open>write\<close> fails with \<open>EPIPE\<close> (32):
  \<open>socket_put8_blocking\<close> returns 0 after that one call, without closing the descriptor,
  and the endpoint still holds descriptor 5. \<open>socket_put8\<close>, on the same input, closes and
  resets it.
\<close>

theorem socket_put8_blocking_keeps_failed_descriptor:
  "socket_put8_blocking ex_attached 0x41 True (world_of [failure 32, reply 0] ex_env)
     = (Inr (0, ex_attached),
        (world_of [failure 32, reply 0] ex_env)\<lparr>calls := [Write 5 [0x41]], errno := 32\<rparr>) \<and>
   conn ex_attached = 5 \<and>
   \<not> transient (failure 32) \<and>
   socket_put8 ex_attached 0x41 True (world_of [failure 32, reply 0] ex_env)
     = (Inr (0, ex_attached\<lparr>conn := -1\<rparr>),
        (world_of [failure 32, reply 0] ex_env)\<lparr>calls := [Write 5 [0x41], Close 5], errno := 0\<rparr>)"
  by (simp add: socket_put8_blocking_def socket_put8_def acceptConnection_def
      put8_blocking_loop.simps sys_simp ex_defs EAGAIN_def transient_def Let_def)

lemma rounds_Suc: "[Write c [b], Usleep 1000000] @ rounds c b k = rounds c b (Suc k)"
  by (simp add: rounds_def)

lemma length_rounds: "length (rounds c b k) = 2 * k"
  by (induction k) (simp_all add: rounds_def)

lemma put8_blocking_loop_busy:
  assumes "\<forall>j<k. transient (reply_at w (2 * j))" and "i + int k \<le> 1001"
  shows "\<exists>w'. put8_blocking_loop i c b w = put8_blocking_loop (i + int k) c b w' \<and>
              calls w' = calls w @ rounds c b k \<and> answers w' = answers w"
  using assms
proof (induction k arbitrary: i w)
  case 0
  show ?case by (intro exI [of _ w]) (simp add: rounds_def)
next
  case (Suc k)
  define w2 where "w2 = snd (sys (Usleep 1000000) (snd (sys (Write c [b]) w)))"
  have w2: "calls w2 = calls w @ [Write c [b], Usleep 1000000]" "answers w2 = answers w"
    by (simp_all add: w2_def sys_simp)
  from Suc.prems(1) have first: "transient (reply_at w 0)" by auto
  have i: "i \<le> 1000" using Suc.prems(2) by simp
  have step: "put8_blocking_loop i c b w = put8_blocking_loop (i + 1) c b w2"
    using first i
    by (subst put8_blocking_loop.simps)
       (simp add: sys_simp transient_def reply_at_def w2_def)
  have "\<forall>j<k. transient (reply_at w2 (2 * j))"
  proof (intro allI impI)
    fix j assume "j < k"
    then have "transient (reply_at w (2 * Suc j))" using Suc.prems(1) by auto
    then show "transient (reply_at w2 (2 * j))"
      by (simp add: reply_at_def w2 add.commute add.left_commute)
  qed
  moreover have "(i + 1) + int k \<le> 1001" using Suc.prems(2) by simp
  ultimately obtain w' where
    w': "put8_blocking_loop (i + 1) c b w2 = put8_blocking_loop (i + 1 + int k) c b w'"
        "calls w' = calls w2 @ rounds c b k" "answers w' = answers w2"
    using Suc.IH by blast
  have c: "calls w' = calls w @ rounds c b (Suc k)"
    using w'(2) w2(1) rounds_Suc [of c b k] by simp
  have e: "i + 1 + int k = i + int (Suc k)" by simp
  have "put8_blocking_loop i c b w = put8_blocking_loop (i + int (Suc k)) c b w'"
    using step w'(1) unfolding e by simp
  with c w'(3) w2(2) show ?case by (intro exI [of _ w']) simp
qed

lemma put8_blocking_loop_result:
  "\<exists>r w' k. put8_blocking_loop 1 c b w = (r, w') \<and> k \<le> 1000 \<and>
     (\<forall>j<k. transient (reply_at w (2 * j))) \<and>
     ((k < 1000 \<and> \<not> transient (reply_at w (2 * k)) \<and>
       r = (if ret (reply_at w (2 * k)) = 1 then 1 else 0) \<and>
       calls w' = calls w @ rounds c b k @ [Write c [b]])
    \<or> (k = 1000 \<and> r = 0 \<and> calls w' = calls w @ rounds c b 1000))"
proof (cases "\<forall>j<1000. transient (reply_at w (2 * j))")
  case True
  from put8_blocking_loop_busy [OF True, of 1 c b] obtain w' where
    w': "put8_blocking_loop 1 c b w = put8_blocking_loop 1001 c b w'"
        "calls w' = calls w @ rounds c b 1000"
    by auto
  have "put8_blocking_loop 1001 c b w' = (0, w')"
    by (subst put8_blocking_loop.simps) simp
  with w' True show ?thesis
    by (intro exI [of _ 0] exI [of _ w'] exI [of _ 1000]) simp
next
  case False
  then have "\<exists>k. k < 1000 \<and> \<not> transient (reply_at w (2 * k))" by auto
  then obtain k where k: "k < 1000" "\<not> transient (reply_at w (2 * k))"
    and least: "\<forall>j<k. \<not> (j < 1000 \<and> \<not> transient (reply_at w (2 * j)))"
    using exists_least_iff [of "\<lambda>k. k < 1000 \<and> \<not> transient (reply_at w (2 * k))"] by auto
  have before: "\<forall>j<k. transient (reply_at w (2 * j))" using least k(1) by auto
  have "1 + int k \<le> 1001" using k(1) by simp
  from put8_blocking_loop_busy [OF before this, of c b] obtain w1 where
    w1: "put8_blocking_loop 1 c b w = put8_blocking_loop (1 + int k) c b w1"
        "calls w1 = calls w @ rounds c b k" "answers w1 = answers w"
    by auto
  define w' where "w' = snd (sys (Write c [b]) w1)"
  have a: "answers w1 (length (calls w1)) = reply_at w (2 * k)"
    by (simp add: w1 reply_at_def length_rounds)
  have ik: "1 + int k \<le> 1000" using k(1) by simp
  have "put8_blocking_loop (1 + int k) c b w1 =
          ((if ret (reply_at w (2 * k)) = 1 then 1 else 0), w')"
    using k(2) ik a
    by (subst put8_blocking_loop.simps)
       (simp add: sys_simp transient_def w'_def)
  moreover have "calls w' = calls w @ rounds c b k @ [Write c [b]]"
    by (simp add: w'_def sys_simp w1)
  ultimately show ?thesis
    using w1(1) before k
    by (intro exI [of _ "if ret (reply_at w (2 * k)) = 1 then 1 else 0"]
              exI [of _ w'] exI [of _ k]) simp
qed

text \<open>
  C4. \<open>socket_put8_blocking\<close> with no connection after the attempt to attach one returns 0
  and makes no call. With a connection it makes \<open>k + 1\<close> writes of the byte for some
  \<open>k < 1000\<close>, or exactly 1000, each followed by \<open>usleep(1000000)\<close> when its reply is
  transient: it stops at the first write whose reply is not transient, with 1 when that
  write returned 1 and with 0 otherwise, and it returns 0 when all 1000 replies were
  transient. The endpoint is returned as it was.
\<close>

theorem socket_put8_blocking_bounded:
  "(acceptConnection s0 server w0 = (Inr s, w) \<and> conn s = -1 \<longrightarrow>
      socket_put8_blocking s0 b server w0 = (Inr (0, s), w)) \<and>
   (acceptConnection s0 server w0 = (Inr s, w) \<and> conn s \<noteq> -1 \<longrightarrow>
      (\<exists>r w' k. socket_put8_blocking s0 b server w0 = (Inr (r, s), w') \<and> k \<le> 1000 \<and>
         (\<forall>j<k. transient (reply_at w (2 * j))) \<and>
         ((k < 1000 \<and> \<not> transient (reply_at w (2 * k)) \<and>
           r = (if ret (reply_at w (2 * k)) = 1 then 1 else 0) \<and>
           calls w' = calls w @ rounds (conn s) b k @ [Write (conn s) [b]])
        \<or> (k = 1000 \<and> r = 0 \<and> calls w' = calls w @ rounds (conn s) b 1000))))"
proof (intro conjI impI)
  assume "acceptConnection s0 server w0 = (Inr s, w) \<and> conn s = -1"
  then show "socket_put8_blocking s0 b server w0 = (Inr (0, s), w)"
    by (simp add: socket_put8_blocking_def)
next
  assume a: "acceptConnection s0 server w0 = (Inr s, w) \<and> conn s \<noteq> -1"
  from put8_blocking_loop_result [of "conn s" b w] obtain r w' k where
    l: "put8_blocking_loop 1 (conn s) b w = (r, w')" and
    p: "k \<le> 1000 \<and>
     (\<forall>j<k. transient (reply_at w (2 * j))) \<and>
     ((k < 1000 \<and> \<not> transient (reply_at w (2 * k)) \<and>
       r = (if ret (reply_at w (2 * k)) = 1 then 1 else 0) \<and>
       calls w' = calls w @ rounds (conn s) b k @ [Write (conn s) [b]])
    \<or> (k = 1000 \<and> r = 0 \<and> calls w' = calls w @ rounds (conn s) b 1000))"
    by blast
  have "socket_put8_blocking s0 b server w0 = (Inr (r, s), w')"
    using a l by (simp add: socket_put8_blocking_def)
  with p show "\<exists>r w' k. socket_put8_blocking s0 b server w0 = (Inr (r, s), w') \<and> k \<le> 1000 \<and>
         (\<forall>j<k. transient (reply_at w (2 * j))) \<and>
         ((k < 1000 \<and> \<not> transient (reply_at w (2 * k)) \<and>
           r = (if ret (reply_at w (2 * k)) = 1 then 1 else 0) \<and>
           calls w' = calls w @ rounds (conn s) b k @ [Write (conn s) [b]])
        \<or> (k = 1000 \<and> r = 0 \<and> calls w' = calls w @ rounds (conn s) b 1000))"
    by blast
qed

theorem socket_put8_blocking_bounded_witness:
  "acceptConnection ex_attached True (world_of [failure EAGAIN, reply 0, reply 1] ex_env)
     = (Inr ex_attached, world_of [failure EAGAIN, reply 0, reply 1] ex_env) \<and>
   conn ex_attached \<noteq> -1 \<and>
   transient (reply_at (world_of [failure EAGAIN, reply 0, reply 1] ex_env) 0) \<and>
   \<not> transient (reply_at (world_of [failure EAGAIN, reply 0, reply 1] ex_env) 2) \<and>
   socket_put8_blocking ex_attached 0x41 True
       (world_of [failure EAGAIN, reply 0, reply 1] ex_env)
     = (Inr (1, ex_attached),
        (world_of [failure EAGAIN, reply 0, reply 1] ex_env)
          \<lparr>calls := [Write 5 [0x41], Usleep 1000000, Write 5 [0x41]], errno := 0\<rparr>) \<and>
   socket_put8_blocking ex_reset_client 0x41 True (world_of [failure EAGAIN] ex_env)
     = (Inr (0, ex_reset_client),
        (world_of [failure EAGAIN] ex_env)\<lparr>calls := [Accept 3], errno := EAGAIN\<rparr>)"
  using socket_put8_blocking_bounded
    [of ex_attached True "world_of [failure EAGAIN, reply 0, reply 1] ex_env" ex_attached
        "world_of [failure EAGAIN, reply 0, reply 1] ex_env" "0x41"]
  by (simp add: socket_put8_blocking_def acceptConnection_def put8_blocking_loop.simps
      sys_simp ex_defs EAGAIN_def transient_def reply_at_def Let_def)

section \<open>Transfers of several bytes\<close>

subsection \<open>The blocking phase\<close>

lemma getN_loop_some:
  assumes "getN_loop c nbytes count bytes w = Some y"
  shows "length (calls w) \<le> length (calls (snd y)) \<and>
         (\<forall>cnt bytes'. fst y = Inr (cnt, bytes') \<longrightarrow>
            length bytes' = length bytes \<and>
            (\<exists>m. completes (answers w) (length (calls w)) m (nbytes - count)))"
proof (rule getN_loop.raw_induct
    [where P = "\<lambda>c nbytes count bytes w y.
        length (calls w) \<le> length (calls (snd y)) \<and>
        (\<forall>cnt bytes'. fst y = Inr (cnt, bytes') \<longrightarrow>
            length bytes' = length bytes \<and>
            (\<exists>m. completes (answers w) (length (calls w)) m (nbytes - count)))", OF _ assms])
  fix loop c nbytes count bytes w y
  assume IH: "\<And>c nbytes count bytes w y. loop c nbytes count bytes w = Some y \<Longrightarrow>
        length (calls w) \<le> length (calls (snd y)) \<and>
        (\<forall>cnt bytes'. fst y = Inr (cnt, bytes') \<longrightarrow>
            length bytes' = length bytes \<and>
            (\<exists>m. completes (answers w) (length (calls w)) m (nbytes - count)))"
    and body: "(if count < nbytes
      then case sys (Select_read c) w of
           (a, w1) \<Rightarrow>
             if \<not> 0 \<le> ret a then Some (Inl Assert_failed, w1)
             else case sys (Read c (nbytes - count)) w1 of
                  (r, w2) \<Rightarrow>
                    if \<not> 0 \<le> ret r then Some (Inl Assert_failed, w2)
                    else loop c nbytes (count + ret r)
                          (store bytes (nat count) (delivered r)) w2
      else Some (Inr (count, bytes), w)) = Some y"
  show "length (calls w) \<le> length (calls (snd y)) \<and>
        (\<forall>cnt bytes'. fst y = Inr (cnt, bytes') \<longrightarrow>
            length bytes' = length bytes \<and>
            (\<exists>m. completes (answers w) (length (calls w)) m (nbytes - count)))"
  proof (cases "count < nbytes")
    case False
    then have "\<exists>m. completes (answers w) (length (calls w)) m (nbytes - count)"
      by (intro exI [of _ 0]) simp
    with False body show ?thesis by auto
  next
    case True
    define a where "a = answers w (length (calls w))"
    define r where "r = answers w (Suc (length (calls w)))"
    define w2 where "w2 = snd (sys (Read c (nbytes - count)) (snd (sys (Select_read c) w)))"
    have w2: "answers w2 = answers w" "length (calls w2) = length (calls w) + 2"
      by (simp_all add: w2_def sys_simp)
    show ?thesis
    proof (cases "0 \<le> ret a \<and> 0 \<le> ret r")
      case False
      with body True show ?thesis
        by (auto simp: sys_simp a_def r_def split: if_splits)
    next
      case ok: True
      with body True have
        rec: "loop c nbytes (count + ret r) (store bytes (nat count) (delivered r)) w2 = Some y"
        by (simp add: sys_simp a_def r_def w2_def)
      note ih = IH [OF rec]
      show ?thesis
      proof (intro conjI allI impI)
        show "length (calls w) \<le> length (calls (snd y))" using ih w2 by simp
      next
        fix cnt bytes' assume "fst y = Inr (cnt, bytes')"
        with ih show "length bytes' = length bytes" by (simp add: length_store)
      next
        fix cnt bytes' assume "fst y = Inr (cnt, bytes')"
        with ih obtain m where
          "completes (answers w2) (length (calls w2)) m (nbytes - (count + ret r))" by blast
        then have "completes (answers w) (length (calls w) + 2) m (nbytes - count - ret r)"
          by (simp add: w2 algebra_simps)
        with ok have "completes (answers w) (length (calls w)) (Suc m) (nbytes - count)"
          by (simp add: a_def r_def)
        then show "\<exists>m. completes (answers w) (length (calls w)) m (nbytes - count)" ..
      qed
    qed
  qed
qed

lemma getN_loop_completes:
  assumes "completes (answers w) (length (calls w)) m (nbytes - count)"
  shows "\<exists>cnt bytes' w'. getN_loop c nbytes count bytes w = Some (Inr (cnt, bytes'), w')"
  using assms
proof (induction m arbitrary: count bytes w)
  case 0
  then show ?case by (subst getN_loop.simps) simp
next
  case (Suc m)
  show ?case
  proof (cases "count < nbytes")
    case False
    then show ?thesis by (subst getN_loop.simps) simp
  next
    case True
    define a where "a = answers w (length (calls w))"
    define r where "r = answers w (Suc (length (calls w)))"
    define w2 where "w2 = snd (sys (Read c (nbytes - count)) (snd (sys (Select_read c) w)))"
    from Suc.prems True have ok: "0 \<le> ret a" "0 \<le> ret r"
      and rest: "completes (answers w) (length (calls w) + 2) m (nbytes - count - ret r)"
      by (auto simp: a_def r_def)
    have w2: "answers w2 = answers w" "length (calls w2) = length (calls w) + 2"
      by (simp_all add: w2_def sys_simp)
    have "completes (answers w2) (length (calls w2)) m (nbytes - (count + ret r))"
      using rest w2 by (simp add: algebra_simps)
    from Suc.IH [OF this] obtain cnt bytes' w' where
      "getN_loop c nbytes (count + ret r) (store bytes (nat count) (delivered r)) w2
         = Some (Inr (cnt, bytes'), w')" by blast
    then show ?thesis
      using True ok
      by (subst getN_loop.simps) (simp add: sys_simp a_def r_def w2_def)
  qed
qed

lemma getN_loop_stops:
  assumes "getN_loop c nbytes count bytes w = Some (Inl e, w')"
  shows "e = Assert_failed"
proof -
  have "\<forall>e. fst y = Inl e \<longrightarrow> e = Assert_failed"
    if "getN_loop c nbytes count bytes w = Some y" for y
  proof (rule getN_loop.raw_induct
      [where P = "\<lambda>c nbytes count bytes w y. \<forall>e. fst y = Inl e \<longrightarrow> e = Assert_failed",
       OF _ that])
    fix loop c nbytes count bytes w y
    assume IH: "\<And>c nbytes count bytes w y. loop c nbytes count bytes w = Some y \<Longrightarrow>
          \<forall>e. fst y = Inl e \<longrightarrow> e = Assert_failed"
      and body: "(if count < nbytes
        then case sys (Select_read c) w of
             (a, w1) \<Rightarrow>
               if \<not> 0 \<le> ret a then Some (Inl Assert_failed, w1)
               else case sys (Read c (nbytes - count)) w1 of
                    (r, w2) \<Rightarrow>
                      if \<not> 0 \<le> ret r then Some (Inl Assert_failed, w2)
                      else loop c nbytes (count + ret r)
                            (store bytes (nat count) (delivered r)) w2
        else Some (Inr (count, bytes), w)) = Some y"
    show "\<forall>e. fst y = Inl e \<longrightarrow> e = Assert_failed"
      using body IH by (auto simp: sys_simp split: if_splits)
  qed
  from this [OF assms] show ?thesis by simp
qed

subsection \<open>Reading\<close>

lemma socket_getN_attached:
  assumes "conn s \<noteq> -1"
  shows "socket_getN buf s n server w =
     (let a = reply_at w 0;
          w1 = snd (sys (Read (conn s) n) w);
          bytes = store buf 0 (delivered a)
      in if ret a = n then Some (Inr (bytes[nat n := 0], s), w1)
         else if 0 < ret a then
           (case getN_loop (conn s) n (ret a) bytes w1 of
              None \<Rightarrow> None
            | Some (Inl e, w2) \<Rightarrow> Some (Inl e, w2)
            | Some (Inr (cnt, bytes'), w2) \<Rightarrow> Some (Inr (bytes'[nat n := 0], s), w2))
         else if \<not> transient a then
           Some (Inr (bytes[nat n := 0xff], s\<lparr>conn := -1\<rparr>), snd (sys (Close (conn s)) w1))
         else Some (Inr (bytes[nat n := 0xff], s), w1))"
  using assms
  by (simp add: socket_getN_def acceptConnection_attached sys_simp Let_def reply_at_def
      transient_def)

text \<open>
  C1, as the code has it. On an attached connection, with \<open>n > 0\<close> and a result buffer
  of more than \<open>n\<close> bytes, the first read decides. When it returns \<open>n\<close>, the status byte
  is 0. When it returns \<open>k\<close> with \<open>0 < k < n\<close>, the blocking phase starts: a call that
  returns has either stopped at an assertion (a \<open>select\<close> or \<open>read\<close> returned a negative
  value) or set the status byte to 0 after rounds of \<open>select\<close> and \<open>read\<close>, all returning at
  least 0, whose reads bring the count to \<open>n\<close>; and whenever the replies are such rounds,
  the call does return with status 0. When the first read is transient, the status byte
  is \<open>0xFF\<close> and the connection stays attached. On any other first read that returns no
  byte, the status byte is \<open>0xFF\<close> and the descriptor is closed and reset.
\<close>

theorem socket_getN_outcomes:
  assumes "conn s \<noteq> -1" and "0 < n" and "nat n < length buf"
  shows
   "(ret (reply_at w 0) = n \<longrightarrow>
       (\<exists>buf' w'. socket_getN buf s n server w = Some (Inr (buf', s), w') \<and>
          buf' ! nat n = 0 \<and> calls w' = calls w @ [Read (conn s) n])) \<and>
    (0 < ret (reply_at w 0) \<and> ret (reply_at w 0) < n \<longrightarrow>
       (\<forall>y. socket_getN buf s n server w = Some y \<longrightarrow>
          fst y = Inl Assert_failed \<or>
          (\<exists>buf'. fst y = Inr (buf', s) \<and> buf' ! nat n = 0 \<and>
             (\<exists>m. completes (answers w) (Suc (length (calls w))) m
                    (n - ret (reply_at w 0))))) \<and>
       (\<forall>m. completes (answers w) (Suc (length (calls w))) m (n - ret (reply_at w 0)) \<longrightarrow>
          (\<exists>buf' w'. socket_getN buf s n server w = Some (Inr (buf', s), w') \<and>
             buf' ! nat n = 0))) \<and>
    (transient (reply_at w 0) \<longrightarrow>
       (\<exists>buf' w'. socket_getN buf s n server w = Some (Inr (buf', s), w') \<and>
          buf' ! nat n = 0xFF \<and> calls w' = calls w @ [Read (conn s) n])) \<and>
    (ret (reply_at w 0) \<le> 0 \<and> \<not> transient (reply_at w 0) \<longrightarrow>
       (\<exists>buf' w'. socket_getN buf s n server w = Some (Inr (buf', s\<lparr>conn := -1\<rparr>), w') \<and>
          buf' ! nat n = 0xFF \<and> calls w' = calls w @ [Read (conn s) n, Close (conn s)]))"
proof -
  define a where "a = reply_at w 0"
  define w1 where "w1 = snd (sys (Read (conn s) n) w)"
  define bytes where "bytes = store buf 0 (delivered a)"
  note g = socket_getN_attached [OF assms(1), of buf n server w,
      folded a_def w1_def, unfolded Let_def, folded bytes_def]
  have w1: "answers w1 = answers w" "length (calls w1) = Suc (length (calls w))"
    "calls w1 = calls w @ [Read (conn s) n]"
    by (simp_all add: w1_def sys_simp)
  have len: "nat n < length bytes" using assms(3) by (simp add: bytes_def length_store)
  have full: "ret a = n \<longrightarrow>
       (\<exists>buf' w'. socket_getN buf s n server w = Some (Inr (buf', s), w') \<and>
          buf' ! nat n = 0 \<and> calls w' = calls w @ [Read (conn s) n])"
    using g len w1 by simp
  have none: "transient a \<longrightarrow>
       (\<exists>buf' w'. socket_getN buf s n server w = Some (Inr (buf', s), w') \<and>
          buf' ! nat n = 0xFF \<and> calls w' = calls w @ [Read (conn s) n])"
    using g len w1 assms(2) by (auto simp: transient_def)
  have lost: "ret a \<le> 0 \<and> \<not> transient a \<longrightarrow>
       (\<exists>buf' w'. socket_getN buf s n server w = Some (Inr (buf', s\<lparr>conn := -1\<rparr>), w') \<and>
          buf' ! nat n = 0xFF \<and> calls w' = calls w @ [Read (conn s) n, Close (conn s)])"
    using g len w1 assms(2) by (auto simp: sys_simp)
  have part1: "\<forall>y. socket_getN buf s n server w = Some y \<longrightarrow>
          fst y = Inl Assert_failed \<or>
          (\<exists>buf'. fst y = Inr (buf', s) \<and> buf' ! nat n = 0 \<and>
             (\<exists>m. completes (answers w) (Suc (length (calls w))) m (n - ret a)))"
    if k: "0 < ret a \<and> ret a < n"
  proof (intro allI impI)
    fix y assume y: "socket_getN buf s n server w = Some y"
    with k g obtain y0 where l: "getN_loop (conn s) n (ret a) bytes w1 = Some y0"
      by (auto split: option.splits)
    show "fst y = Inl Assert_failed \<or>
          (\<exists>buf'. fst y = Inr (buf', s) \<and> buf' ! nat n = 0 \<and>
             (\<exists>m. completes (answers w) (Suc (length (calls w))) m (n - ret a)))"
    proof (cases "fst y0")
      case (Inl e)
      then have "y0 = (Inl e, snd y0)" by (cases y0) simp
      with l getN_loop_stops have "e = Assert_failed" by metis
      with Inl y k g l show ?thesis by (cases y0) auto
    next
      case (Inr p)
      obtain cnt bytes' where p: "p = (cnt, bytes')" by (cases p)
      from getN_loop_some [OF l] Inr p have
        "length bytes' = length bytes"
        "\<exists>m. completes (answers w1) (length (calls w1)) m (n - ret a)" by auto
      with Inr p y k g l len w1 show ?thesis by (cases y0) auto
    qed
  qed
  have part2: "\<forall>m. completes (answers w) (Suc (length (calls w))) m (n - ret a) \<longrightarrow>
          (\<exists>buf' w'. socket_getN buf s n server w = Some (Inr (buf', s), w') \<and>
             buf' ! nat n = 0)"
    if k: "0 < ret a \<and> ret a < n"
  proof (intro allI impI)
    fix m assume "completes (answers w) (Suc (length (calls w))) m (n - ret a)"
    then have "completes (answers w1) (length (calls w1)) m (n - ret a)" by (simp add: w1)
    from getN_loop_completes [OF this, of "conn s" bytes] obtain cnt bytes' w' where
      l: "getN_loop (conn s) n (ret a) bytes w1 = Some (Inr (cnt, bytes'), w')" by blast
    from getN_loop_some [OF l] have "length bytes' = length bytes" by simp
    with l k g len show "\<exists>buf' w'. socket_getN buf s n server w = Some (Inr (buf', s), w') \<and>
             buf' ! nat n = 0" by simp
  qed
  from full none lost part1 part2 show ?thesis unfolding a_def by blast
qed

theorem socket_getN_outcomes_witness:
  "conn ex_attached \<noteq> -1 \<and> (0::int) < 4 \<and> nat 4 < length [0, 0, 0, 0, 0 :: byte] \<and>
   completes (answers (world_of [incoming [1, 2], reply 1, incoming [3, 4]] ex_env)) 1 1 (4 - 2) \<and>
   socket_getN [0, 0, 0, 0, 0] ex_attached 4 True
       (world_of [incoming [1, 2], reply 1, incoming [3, 4]] ex_env)
     = Some (Inr ([1, 2, 3, 4, 0], ex_attached),
         (world_of [incoming [1, 2], reply 1, incoming [3, 4]] ex_env)
           \<lparr>calls := [Read 5 4, Select_read 5, Read 5 2], errno := 0\<rparr>) \<and>
   map_option fst (socket_getN [0, 0, 0, 0, 0] ex_attached 4 True
       (world_of [incoming [1, 2, 3, 4]] ex_env))
     = Some (Inr ([1, 2, 3, 4, 0], ex_attached)) \<and>
   map_option fst (socket_getN [0, 0, 0, 0, 0] ex_attached 4 True
       (world_of [failure EAGAIN] ex_env))
     = Some (Inr ([0, 0, 0, 0, 0xFF], ex_attached))"
  using socket_getN_outcomes [of ex_attached 4 "[0, 0, 0, 0, 0]"
      "world_of [incoming [1, 2], reply 1, incoming [3, 4]] ex_env" True]
  by (simp add: socket_getN_def acceptConnection_def getN_loop.simps sys_simp ex_defs
      delivered_def EAGAIN_def Let_def numeral_2_eq_2 eval_nat_numeral)

text \<open>
  C1 fails as stated. After two of four bytes the peer resets the connection: the read of
  the blocking phase returns \<open>-1\<close> (\<open>ECONNRESET\<close>, 104), the assertion fails and no status is
  set. And a first read that returns 0 (the peer has closed) is none of the three
  outcomes: the status byte is \<open>0xFF\<close> and the connection is detached.
\<close>

theorem socket_getN_outcomes_counterexample:
  "0 < ret (reply_at (world_of [incoming [1, 2], reply 1, failure 104] ex_env) 0) \<and>
   ret (reply_at (world_of [incoming [1, 2], reply 1, failure 104] ex_env) 0) < 4 \<and>
   socket_getN [0, 0, 0, 0, 0] ex_attached 4 True
       (world_of [incoming [1, 2], reply 1, failure 104] ex_env)
     = Some (Inl Assert_failed,
         (world_of [incoming [1, 2], reply 1, failure 104] ex_env)
           \<lparr>calls := [Read 5 4, Select_read 5, Read 5 2], errno := 104\<rparr>) \<and>
   socket_getN [0, 0, 0, 0, 0] ex_attached 4 True (world_of [reply 0, reply 0] ex_env)
     = Some (Inr ([0, 0, 0, 0, 0xFF], ex_attached\<lparr>conn := -1\<rparr>),
         (world_of [reply 0, reply 0] ex_env)\<lparr>calls := [Read 5 4, Close 5], errno := 0\<rparr>)"
  by (simp add: socket_getN_def acceptConnection_def getN_loop.simps sys_simp ex_defs
      delivered_def reply_at_def EAGAIN_def Let_def)

text \<open>
  The blocking phase has no bound of its own. When the peer closes after two of four
  bytes, every round reads nothing and the call never returns.
\<close>

lemma getN_loop_starved:
  assumes "getN_loop c nbytes count bytes w = Some y"
  shows "\<not> (answers w = answers ex_closed_world \<and> odd (length (calls w)) \<and> count < nbytes)"
proof (rule getN_loop.raw_induct
    [where P = "\<lambda>c nbytes count bytes w y.
        \<not> (answers w = answers ex_closed_world \<and> odd (length (calls w)) \<and> count < nbytes)",
     OF _ assms])
  fix loop c nbytes count bytes w y
  assume IH: "\<And>c nbytes count bytes w y. loop c nbytes count bytes w = Some y \<Longrightarrow>
        \<not> (answers w = answers ex_closed_world \<and> odd (length (calls w)) \<and> count < nbytes)"
    and body: "(if count < nbytes
      then case sys (Select_read c) w of
           (a, w1) \<Rightarrow>
             if \<not> 0 \<le> ret a then Some (Inl Assert_failed, w1)
             else case sys (Read c (nbytes - count)) w1 of
                  (r, w2) \<Rightarrow>
                    if \<not> 0 \<le> ret r then Some (Inl Assert_failed, w2)
                    else loop c nbytes (count + ret r)
                          (store bytes (nat count) (delivered r)) w2
      else Some (Inr (count, bytes), w)) = Some y"
  show "\<not> (answers w = answers ex_closed_world \<and> odd (length (calls w)) \<and> count < nbytes)"
  proof
    assume h: "answers w = answers ex_closed_world \<and> odd (length (calls w)) \<and> count < nbytes"
    define w2 where "w2 = snd (sys (Read c (nbytes - count)) (snd (sys (Select_read c) w)))"
    have w2: "answers w2 = answers ex_closed_world" "odd (length (calls w2))"
      using h by (simp_all add: w2_def sys_simp)
    have n0: "length (calls w) \<noteq> 0" using h by (auto elim: oddE)
    have a: "answers ex_closed_world (length (calls w)) = reply 1"
      using h n0 by (simp add: ex_closed_world_def)
    have r: "answers ex_closed_world (Suc (length (calls w))) = reply 0"
      using h by (simp add: ex_closed_world_def)
    have "loop c nbytes count (store bytes (nat count) []) w2 = Some y"
      using body h
      by (simp add: sys_simp a r reply_def delivered_def w2_def)
    from IH [OF this] w2 h show False by simp
  qed
qed

lemma socket_getN_never_returns:
  "socket_getN [0, 0, 0, 0, 0] ex_attached 4 True ex_closed_world = None"
proof -
  define w1 where "w1 = snd (sys (Read 5 4) ex_closed_world)"
  have w1: "answers w1 = answers ex_closed_world" "odd (length (calls w1))"
    by (simp_all add: w1_def sys_simp ex_closed_world_def)
  have "getN_loop 5 4 2 [1, 2, 0, 0, 0] w1 = None"
  proof (cases "getN_loop 5 4 2 [1, 2, 0, 0, 0] w1")
    case None
    then show ?thesis .
  next
    case (Some y)
    from getN_loop_starved [OF Some] w1 show ?thesis by simp
  qed
  then show ?thesis
    by (simp add: socket_getN_def acceptConnection_def sys_simp ex_defs ex_closed_world_def
        delivered_def Let_def w1_def)
qed

subsection \<open>Writing\<close>

lemma putN_loop_some:
  assumes "putN_loop c nbytes count bytes w = Some y"
  shows "(\<forall>e. fst y = Inl e \<longrightarrow> e = Assert_failed) \<and>
         (\<forall>cnt. fst y = Inr cnt \<longrightarrow>
            (\<exists>m. completes (answers w) (length (calls w)) m (nbytes - count)))"
proof (rule putN_loop.raw_induct
    [where P = "\<lambda>c nbytes count bytes w y.
        (\<forall>e. fst y = Inl e \<longrightarrow> e = Assert_failed) \<and>
        (\<forall>cnt. fst y = Inr cnt \<longrightarrow>
            (\<exists>m. completes (answers w) (length (calls w)) m (nbytes - count)))", OF _ assms])
  fix loop c nbytes count bytes w y
  assume IH: "\<And>c nbytes count bytes w y. loop c nbytes count bytes w = Some y \<Longrightarrow>
        (\<forall>e. fst y = Inl e \<longrightarrow> e = Assert_failed) \<and>
        (\<forall>cnt. fst y = Inr cnt \<longrightarrow>
            (\<exists>m. completes (answers w) (length (calls w)) m (nbytes - count)))"
    and body: "(if count < nbytes
      then case sys (Select_write c) w of
           (a, w1) \<Rightarrow>
             if \<not> 0 \<le> ret a then Some (Inl Assert_failed, w1)
             else case sys (Write c (take (nat (nbytes - count)) (drop (nat count) bytes))) w1 of
                  (r, w2) \<Rightarrow>
                    if \<not> 0 \<le> ret r then Some (Inl Assert_failed, w2)
                    else loop c nbytes (count + ret r) bytes w2
      else Some (Inr count, w)) = Some y"
  show "(\<forall>e. fst y = Inl e \<longrightarrow> e = Assert_failed) \<and>
        (\<forall>cnt. fst y = Inr cnt \<longrightarrow>
            (\<exists>m. completes (answers w) (length (calls w)) m (nbytes - count)))"
  proof (cases "count < nbytes")
    case False
    then have "\<exists>m. completes (answers w) (length (calls w)) m (nbytes - count)"
      by (intro exI [of _ 0]) simp
    with False body show ?thesis by auto
  next
    case True
    define a where "a = answers w (length (calls w))"
    define r where "r = answers w (Suc (length (calls w)))"
    define w2 where "w2 = snd (sys (Write c (take (nat (nbytes - count)) (drop (nat count) bytes)))
                                 (snd (sys (Select_write c) w)))"
    have w2: "answers w2 = answers w" "length (calls w2) = length (calls w) + 2"
      by (simp_all add: w2_def sys_simp)
    show ?thesis
    proof (cases "0 \<le> ret a \<and> 0 \<le> ret r")
      case False
      with body True show ?thesis
        by (auto simp: sys_simp a_def r_def split: if_splits)
    next
      case ok: True
      with body True have rec: "loop c nbytes (count + ret r) bytes w2 = Some y"
        by (simp add: sys_simp a_def r_def w2_def)
      note ih = IH [OF rec]
      show ?thesis
      proof (intro conjI allI impI)
        fix e assume "fst y = Inl e"
        with ih show "e = Assert_failed" by simp
      next
        fix cnt assume "fst y = Inr cnt"
        with ih obtain m where
          "completes (answers w2) (length (calls w2)) m (nbytes - (count + ret r))" by blast
        then have "completes (answers w) (length (calls w) + 2) m (nbytes - count - ret r)"
          by (simp add: w2 algebra_simps)
        with ok have "completes (answers w) (length (calls w)) (Suc m) (nbytes - count)"
          by (simp add: a_def r_def)
        then show "\<exists>m. completes (answers w) (length (calls w)) m (nbytes - count)" ..
      qed
    qed
  qed
qed

lemma putN_loop_completes:
  assumes "completes (answers w) (length (calls w)) m (nbytes - count)"
  shows "\<exists>cnt w'. putN_loop c nbytes count bytes w = Some (Inr cnt, w')"
  using assms
proof (induction m arbitrary: count w)
  case 0
  then show ?case by (subst putN_loop.simps) simp
next
  case (Suc m)
  show ?case
  proof (cases "count < nbytes")
    case False
    then show ?thesis by (subst putN_loop.simps) simp
  next
    case True
    define a where "a = answers w (length (calls w))"
    define r where "r = answers w (Suc (length (calls w)))"
    define w2 where "w2 = snd (sys (Write c (take (nat (nbytes - count)) (drop (nat count) bytes)))
                                 (snd (sys (Select_write c) w)))"
    from Suc.prems True have ok: "0 \<le> ret a" "0 \<le> ret r"
      and rest: "completes (answers w) (length (calls w) + 2) m (nbytes - count - ret r)"
      by (auto simp: a_def r_def)
    have w2: "answers w2 = answers w" "length (calls w2) = length (calls w) + 2"
      by (simp_all add: w2_def sys_simp)
    have "completes (answers w2) (length (calls w2)) m (nbytes - (count + ret r))"
      using rest w2 by (simp add: algebra_simps)
    from Suc.IH [OF this] obtain cnt w' where
      "putN_loop c nbytes (count + ret r) bytes w2 = Some (Inr cnt, w')" by blast
    then show ?thesis
      using True ok
      by (subst putN_loop.simps) (simp add: sys_simp a_def r_def w2_def)
  qed
qed

lemma socket_putN_attached:
  assumes "conn s \<noteq> -1"
  shows "socket_putN s n bytes server w =
     (let a = reply_at w 0;
          w1 = snd (sys (Write (conn s) (take (nat n) bytes)) w)
      in if ret a = n then Some (Inr (1, s), w1)
         else if 0 < ret a then
           (case putN_loop (conn s) n (ret a) bytes w1 of
              None \<Rightarrow> None
            | Some (Inl e, w2) \<Rightarrow> Some (Inl e, w2)
            | Some (Inr cnt, w2) \<Rightarrow> Some (Inr (1, s), w2))
         else if \<not> transient a then
           Some (Inr (0, s\<lparr>conn := -1\<rparr>), snd (sys (Close (conn s)) w1))
         else Some (Inr (0, s), w1))"
  using assms
  by (simp add: socket_putN_def acceptConnection_attached sys_simp Let_def reply_at_def
      transient_def)

text \<open>
  C7, as the code has it. On an attached connection, with \<open>n > 0\<close>, the first write
  decides. When it returns \<open>n\<close>, the result is 1. When it returns \<open>k\<close> with \<open>0 < k < n\<close>, the
  blocking phase starts: a call that returns has either stopped at an assertion (a
  \<open>select\<close> or \<open>write\<close> returned a negative value) or returned 1 after rounds of \<open>select\<close> and
  \<open>write\<close>, all returning at least 0, whose writes bring the count to \<open>n\<close>; and whenever the
  replies are such rounds, the call does return 1. When the first write is transient, the
  result is 0 and the connection stays attached. On any other first write that sends no
  byte, the result is 0 and the descriptor is closed and reset.
\<close>

theorem socket_putN_outcomes:
  assumes "conn s \<noteq> -1" and "0 < n"
  shows
   "(ret (reply_at w 0) = n \<longrightarrow>
       (\<exists>w'. socket_putN s n bytes server w = Some (Inr (1, s), w') \<and>
          calls w' = calls w @ [Write (conn s) (take (nat n) bytes)])) \<and>
    (0 < ret (reply_at w 0) \<and> ret (reply_at w 0) < n \<longrightarrow>
       (\<forall>y. socket_putN s n bytes server w = Some y \<longrightarrow>
          fst y = Inl Assert_failed \<or>
          (fst y = Inr (1, s) \<and>
             (\<exists>m. completes (answers w) (Suc (length (calls w))) m
                    (n - ret (reply_at w 0))))) \<and>
       (\<forall>m. completes (answers w) (Suc (length (calls w))) m (n - ret (reply_at w 0)) \<longrightarrow>
          (\<exists>w'. socket_putN s n bytes server w = Some (Inr (1, s), w')))) \<and>
    (transient (reply_at w 0) \<longrightarrow>
       (\<exists>w'. socket_putN s n bytes server w = Some (Inr (0, s), w') \<and>
          calls w' = calls w @ [Write (conn s) (take (nat n) bytes)])) \<and>
    (ret (reply_at w 0) \<le> 0 \<and> \<not> transient (reply_at w 0) \<longrightarrow>
       (\<exists>w'. socket_putN s n bytes server w = Some (Inr (0, s\<lparr>conn := -1\<rparr>), w') \<and>
          calls w' = calls w @ [Write (conn s) (take (nat n) bytes), Close (conn s)]))"
proof -
  define a where "a = reply_at w 0"
  define w1 where "w1 = snd (sys (Write (conn s) (take (nat n) bytes)) w)"
  note g = socket_putN_attached [OF assms(1), of n bytes server w,
      folded a_def w1_def, unfolded Let_def]
  have w1: "answers w1 = answers w" "length (calls w1) = Suc (length (calls w))"
    "calls w1 = calls w @ [Write (conn s) (take (nat n) bytes)]"
    by (simp_all add: w1_def sys_simp)
  have full: "ret a = n \<longrightarrow>
       (\<exists>w'. socket_putN s n bytes server w = Some (Inr (1, s), w') \<and>
          calls w' = calls w @ [Write (conn s) (take (nat n) bytes)])"
    using g w1 by simp
  have none: "transient a \<longrightarrow>
       (\<exists>w'. socket_putN s n bytes server w = Some (Inr (0, s), w') \<and>
          calls w' = calls w @ [Write (conn s) (take (nat n) bytes)])"
    using g w1 assms(2) by (auto simp: transient_def)
  have lost: "ret a \<le> 0 \<and> \<not> transient a \<longrightarrow>
       (\<exists>w'. socket_putN s n bytes server w = Some (Inr (0, s\<lparr>conn := -1\<rparr>), w') \<and>
          calls w' = calls w @ [Write (conn s) (take (nat n) bytes), Close (conn s)])"
    using g w1 assms(2) by (auto simp: sys_simp)
  have part1: "\<forall>y. socket_putN s n bytes server w = Some y \<longrightarrow>
          fst y = Inl Assert_failed \<or>
          (fst y = Inr (1, s) \<and>
             (\<exists>m. completes (answers w) (Suc (length (calls w))) m (n - ret a)))"
    if k: "0 < ret a \<and> ret a < n"
  proof (intro allI impI)
    fix y assume y: "socket_putN s n bytes server w = Some y"
    with k g obtain y0 where l: "putN_loop (conn s) n (ret a) bytes w1 = Some y0"
      by (auto split: option.splits)
    note p = putN_loop_some [OF l]
    show "fst y = Inl Assert_failed \<or>
          (fst y = Inr (1, s) \<and>
             (\<exists>m. completes (answers w) (Suc (length (calls w))) m (n - ret a)))"
    proof (cases "fst y0")
      case (Inl e)
      with p have "e = Assert_failed" by simp
      with Inl y k g l show ?thesis by (cases y0) auto
    next
      case (Inr cnt)
      with p have "\<exists>m. completes (answers w1) (length (calls w1)) m (n - ret a)" by simp
      with Inr y k g l w1 show ?thesis by (cases y0) auto
    qed
  qed
  have part2: "\<forall>m. completes (answers w) (Suc (length (calls w))) m (n - ret a) \<longrightarrow>
          (\<exists>w'. socket_putN s n bytes server w = Some (Inr (1, s), w'))"
    if k: "0 < ret a \<and> ret a < n"
  proof (intro allI impI)
    fix m assume "completes (answers w) (Suc (length (calls w))) m (n - ret a)"
    then have "completes (answers w1) (length (calls w1)) m (n - ret a)" by (simp add: w1)
    from putN_loop_completes [OF this, of "conn s" bytes] obtain cnt w' where
      l: "putN_loop (conn s) n (ret a) bytes w1 = Some (Inr cnt, w')" by blast
    with k g show "\<exists>w'. socket_putN s n bytes server w = Some (Inr (1, s), w')" by simp
  qed
  from full none lost part1 part2 show ?thesis unfolding a_def by blast
qed

theorem socket_putN_outcomes_witness:
  "conn ex_attached \<noteq> -1 \<and> (0::int) < 4 \<and>
   completes (answers (world_of [reply 3, reply 1, reply 1] ex_env)) 1 1 (4 - 3) \<and>
   socket_putN ex_attached 4 [1, 2, 3, 4] True (world_of [reply 3, reply 1, reply 1] ex_env)
     = Some (Inr (1, ex_attached),
         (world_of [reply 3, reply 1, reply 1] ex_env)
           \<lparr>calls := [Write 5 [1, 2, 3, 4], Select_write 5, Write 5 [4]], errno := 0\<rparr>) \<and>
   map_option fst (socket_putN ex_attached 4 [1, 2, 3, 4] True (world_of [reply 4] ex_env))
     = Some (Inr (1, ex_attached)) \<and>
   map_option fst (socket_putN ex_attached 4 [1, 2, 3, 4] True
       (world_of [failure EAGAIN] ex_env))
     = Some (Inr (0, ex_attached)) \<and>
   map_option fst (socket_putN ex_attached 4 [1, 2, 3, 4] True
       (world_of [failure 32, reply 0] ex_env))
     = Some (Inr (0, ex_attached\<lparr>conn := -1\<rparr>))"
  using socket_putN_outcomes [of ex_attached 4
      "world_of [reply 3, reply 1, reply 1] ex_env" "[1, 2, 3, 4]" True]
  by (simp add: socket_putN_def acceptConnection_def putN_loop.simps sys_simp ex_defs
      EAGAIN_def Let_def numeral_2_eq_2 eval_nat_numeral)

text \<open>
  C7 fails as stated. After three of four bytes the peer closes the connection: the write
  of the blocking phase returns \<open>-1\<close> (\<open>EPIPE\<close>, 32), the assertion fails and \<open>socket_putN\<close>
  does not return 1.
\<close>

theorem socket_putN_outcomes_counterexample:
  "0 < ret (reply_at (world_of [reply 3, reply 1, failure 32] ex_env) 0) \<and>
   ret (reply_at (world_of [reply 3, reply 1, failure 32] ex_env) 0) < 4 \<and>
   socket_putN ex_attached 4 [1, 2, 3, 4] True (world_of [reply 3, reply 1, failure 32] ex_env)
     = Some (Inl Assert_failed,
         (world_of [reply 3, reply 1, failure 32] ex_env)
           \<lparr>calls := [Write 5 [1, 2, 3, 4], Select_write 5, Write 5 [4]], errno := 32\<rparr>)"
  by (simp add: socket_putN_def acceptConnection_def putN_loop.simps sys_simp ex_defs
      reply_at_def EAGAIN_def Let_def)

subsection \<open>Reading no byte\<close>

lemma drop_update_first: "drop 1 (buf[0 := x]) = drop 1 buf"
  by (cases buf) simp_all

text \<open>
  C10. On an attached connection \<open>socket_getN\<close> with \<open>n = 0\<close> makes one read of length 0
  and nothing else: no \<open>select\<close>, so no blocking phase. That read returns 0, a count equal
  to \<open>n\<close>, and then the status byte (index 0 of the result buffer) is set to 0, not to
  \<open>0xFF\<close>, no other byte of the buffer changes and the connection stays attached.
\<close>

theorem socket_getN_zero_length:
  assumes "conn s \<noteq> -1" and "ret (reply_at w 0) = 0"
  shows "\<exists>w'. socket_getN buf s 0 server w = Some (Inr (buf[0 := 0], s), w') \<and>
           calls w' = calls w @ [Read (conn s) 0] \<and>
           (0 < length buf \<longrightarrow> buf[0 := 0] ! 0 = 0 \<and> buf[0 := 0] ! 0 \<noteq> 0xFF) \<and>
           drop 1 (buf[0 := 0]) = drop 1 buf"
  using assms drop_update_first [of buf 0]
  by (auto simp: socket_getN_attached Let_def delivered_def sys_simp)

theorem socket_getN_zero_length_witness:
  "conn ex_attached \<noteq> -1 \<and>
   ret (reply_at (world_of [reply 0] ex_env) 0) = 0 \<and>
   socket_getN [7, 9] ex_attached 0 True (world_of [reply 0] ex_env)
     = Some (Inr ([0, 9], ex_attached),
         (world_of [reply 0] ex_env)\<lparr>calls := [Read 5 0], errno := 0\<rparr>)"
  using socket_getN_zero_length [of ex_attached "world_of [reply 0] ex_env" "[7, 9]" True]
  by (simp add: socket_getN_def acceptConnection_def sys_simp ex_defs delivered_def
      reply_at_def Let_def)

section \<open>A client after the loss of its connection\<close>

text \<open>
  C3. A client's connection is its socket, descriptor 3. The peer resets the connection:
  the read of \<open>socket_getN\<close> fails with \<open>ECONNRESET\<close> (104), the descriptor is closed and the
  connection descriptor reset, but the endpoint keeps the number 3 as its socket. The
  process then opens something else, which is given the free number 3. The next
  \<open>socket_getN\<close> of the client attaches the number 3 again, without any call, and reads
  from it: it delivers \<open>0x41\<close> with status 0, and the endpoint is attached.
\<close>

theorem client_reattaches_closed_descriptor:
  "socket_getN [0, 0] ex_client 1 False
       (world_of [failure 104, reply 0, incoming [0x41]] ex_env)
     = Some (Inr ([0, 0xFF], ex_client\<lparr>conn := -1\<rparr>),
         (world_of [failure 104, reply 0, incoming [0x41]] ex_env)
           \<lparr>calls := [Read 3 1, Close 3], errno := 0\<rparr>) \<and>
   acceptConnection (ex_client\<lparr>conn := -1\<rparr>) False
       ((world_of [failure 104, reply 0, incoming [0x41]] ex_env)
          \<lparr>calls := [Read 3 1, Close 3], errno := 0\<rparr>)
     = (Inr ex_client,
        (world_of [failure 104, reply 0, incoming [0x41]] ex_env)
          \<lparr>calls := [Read 3 1, Close 3], errno := 0\<rparr>) \<and>
   socket_getN [0, 0] (ex_client\<lparr>conn := -1\<rparr>) 1 False
       ((world_of [failure 104, reply 0, incoming [0x41]] ex_env)
          \<lparr>calls := [Read 3 1, Close 3], errno := 0\<rparr>)
     = Some (Inr ([0x41, 0], ex_client),
         (world_of [failure 104, reply 0, incoming [0x41]] ex_env)
           \<lparr>calls := [Read 3 1, Close 3, Read 3 1], errno := 0\<rparr>) \<and>
   conn ex_client = 3"
  by (simp add: socket_getN_def acceptConnection_def sys_simp ex_defs delivered_def
      EAGAIN_def Let_def)

end
